theory Spec2Isabelle
  imports Complex_Main
begin

section \<open>YConfParser.hpp: the configuration value\<close>

text \<open>
  The header parses an indentation-structured text file into a dictionary from dotted
  parameter names to typed values. This theory embeds \<^verbatim>\<open>config_struct\<close>, the trimming
  helpers, the four \<^verbatim>\<open>parseAs...\<close> functions, \<^verbatim>\<open>parseLine\<close> and \<^verbatim>\<open>parseFile\<close>.

  Strings are \<^typ>\<open>string\<close> (lists of bytes), sizes are natural numbers, and the one
  \<^verbatim>\<open>size_t\<close> subtraction that can wrap around is written with its wrap-around.
\<close>

text \<open>The enumeration \<^verbatim>\<open>config_struct::type_\<close>.\<close>

datatype type_enum = NO_VAL | STRING | BOOLEAN | FLOAT | INTEGER

text \<open>
  \<^verbatim>\<open>config_struct\<close>. The element type of \<^verbatim>\<open>floatVal\<close> is a type parameter: the
  parser only stores what \<^verbatim>\<open>std::stof\<close> returns and never computes with it. Its zero
  stands for the literal \<^verbatim>\<open>0.0\<close>. The bytes of \<^verbatim>\<open>boolVal\<close> only ever hold
  \<^verbatim>\<open>true\<close> or \<^verbatim>\<open>false\<close>.
\<close>

record 'f config_struct =
  type :: type_enum
  rawString :: string
  stringVal :: "string list"
  boolVal :: "bool list"
  floatVal :: "'f list"
  intVal :: "int list"

text \<open>The constructor \<^verbatim>\<open>config_struct_()\<close>: type \<^verbatim>\<open>NO_VAL\<close>, empty raw string, empty vectors.\<close>

definition config_struct_init :: "'f config_struct" where
  "config_struct_init =
     \<lparr>type = NO_VAL, rawString = [], stringVal = [], boolVal = [], floatVal = [], intVal = []\<rparr>"

text \<open>
  The two conversions of the standard library that the parser calls inside
  \<^verbatim>\<open>try { ... } catch(...) {}\<close> are parameters of the model: \<open>stof L s\<close> and
  \<open>stoi L s\<close> are \<open>None\<close> where the C++ function throws.
\<close>

record 'f stdlib =
  stof :: "string \<Rightarrow> 'f option"
  stoi :: "string \<Rightarrow> int option"

text \<open>What the parser prints on \<^verbatim>\<open>stderr\<close>, one constructor for each \<^verbatim>\<open>fprintf\<close>.\<close>

datatype diag =
    MixingNotAllowed
  | WarningMix
  | Invalid string
  | MissingParam
  | UnknownType string
  | SameTypeExpected
  | ErrorOpening

section \<open>String helpers\<close>

text \<open>
  \<^verbatim>\<open>s.find(pat)\<close>: the position of the first occurrence, \<open>None\<close> for \<^verbatim>\<open>npos\<close>.
\<close>

fun str_find :: "string \<Rightarrow> string \<Rightarrow> nat option" where
  "str_find s pat =
     (if take (length pat) s = pat then Some 0
      else case s of [] \<Rightarrow> None | _ # r \<Rightarrow> map_option Suc (str_find r pat))"

text \<open>\<^verbatim>\<open>s.find(c)\<close> for a character.\<close>

definition chr_find :: "string \<Rightarrow> char \<Rightarrow> nat option" where
  "chr_find s c = (if c \<in> set s then Some (length (takeWhile (\<lambda>x. x \<noteq> c) s)) else None)"

text \<open>
  \<^verbatim>\<open>s.substr(pos, count)\<close> for \<open>pos \<le> size\<close> (every call of the parser is such):
  \<^verbatim>\<open>count\<close> is clamped to the end of the string.
\<close>

definition substr :: "string \<Rightarrow> nat \<Rightarrow> nat \<Rightarrow> string" where
  "substr s pos count = take count (drop pos s)"

definition trimmLeadingSpaces :: "string \<Rightarrow> string" where
  "trimmLeadingSpaces w_string =
     (if w_string = [] then [] else dropWhile (\<lambda>c. c = CHR '' '') w_string)"

definition trimmLeadingTabs :: "string \<Rightarrow> string" where
  "trimmLeadingTabs w_string =
     (if w_string = [] then [] else dropWhile (\<lambda>c. c = CHR 0x09) w_string)"

text \<open>
  \<^verbatim>\<open>find_last_not_of(' ')\<close> gives the index \<open>n\<close> of the last character that is not a
  space; \<^verbatim>\<open>substr(0, n+1)\<close> keeps everything up to it.
\<close>

definition trimmTrailingSpaces :: "string \<Rightarrow> string" where
  "trimmTrailingSpaces w_string =
     (if w_string = [] then [] else rev (dropWhile (\<lambda>c. c = CHR '' '') (rev w_string)))"

definition trimmWhiteSpaces :: "string \<Rightarrow> string" where
  "trimmWhiteSpaces w_string = trimmTrailingSpaces (trimmLeadingSpaces w_string)"

section \<open>The scalar parsers\<close>

text \<open>
  Each \<^verbatim>\<open>parseAs...\<close> returns a flag and writes the value through a reference only
  when the flag is true: the model returns \<open>Some\<close> of the value then. On the empty
  string \<^verbatim>\<open>w_string[0]\<close> is the terminating zero byte, which is not a quote.
\<close>

definition parseAsString :: "string \<Rightarrow> string option" where
  "parseAsString w_string =
     (case w_string of
        [] \<Rightarrow> None
      | c # _ \<Rightarrow>
          if c = CHR 0x22 then
            if length w_string > 2 then
              if last w_string = CHR 0x22
              then Some (substr w_string 1 (length w_string - 2))
              else None
            else None
          else None)"

definition parseAsBoolean :: "string \<Rightarrow> bool option" where
  "parseAsBoolean w_string =
     (if str_find w_string ''TRUE'' \<noteq> None then Some True
      else if str_find w_string ''FALSE'' \<noteq> None then Some False
      else None)"

definition parseAsFloat :: "'f stdlib \<Rightarrow> string \<Rightarrow> 'f option" where
  "parseAsFloat L w_string =
     (if str_find w_string ''.'' \<noteq> None then stof L w_string else None)"

definition parseAsInteger :: "'f stdlib \<Rightarrow> string \<Rightarrow> int option" where
  "parseAsInteger L w_string =
     (if str_find w_string ''.'' \<noteq> None then stoi L w_string else None)"

section \<open>The value of a line\<close>

text \<open>
  The local variables of the array loop of \<^verbatim>\<open>parseLine\<close>: the four accumulating
  vectors (each starts with one unassigned slot, and gets a new one after every element
  stored), \<^verbatim>\<open>elementType\<close>, \<^verbatim>\<open>pvPair.second.type\<close> (here \<open>arrayType\<close>) and the
  messages printed so far.
\<close>

record 'f loop_state =
  stringVals :: "string list"
  boolVals :: "bool list"
  floatVals :: "'f list"
  intVals :: "int list"
  elementType :: type_enum
  arrayType :: type_enum
  messages :: "diag list"

definition loop_init :: "'f::zero loop_state" where
  "loop_init =
     \<lparr>stringVals = [[]], boolVals = [False], floatVals = [0], intVals = [0],
      elementType = NO_VAL, arrayType = NO_VAL, messages = []\<rparr>"

text \<open>\<^verbatim>\<open>v.back() = x\<close> on a vector that is not empty.\<close>

definition set_back :: "'a list \<Rightarrow> 'a \<Rightarrow> 'a list" where
  "set_back v x = butlast v @ [x]"

text \<open>
  The \<^verbatim>\<open>if / else if\<close> chain at the head of the loop body: the first parser that
  accepts the element stores it in the last slot of its vector, sets \<^verbatim>\<open>elementType\<close>
  and pushes a fresh slot. \<open>None\<close> is the final \<^verbatim>\<open>else\<close> (unknown type).
\<close>

definition parseElement :: "'f::zero stdlib \<Rightarrow> string \<Rightarrow> 'f loop_state \<Rightarrow> 'f loop_state option" where
  "parseElement L element st =
     (case parseAsString element of
        Some v \<Rightarrow>
          Some (st\<lparr>stringVals := set_back (stringVals st) v @ [[]], elementType := STRING\<rparr>)
      | None \<Rightarrow>
     (case parseAsBoolean element of
        Some b \<Rightarrow>
          Some (st\<lparr>boolVals := set_back (boolVals st) b @ [False], elementType := BOOLEAN\<rparr>)
      | None \<Rightarrow>
     (case parseAsFloat L element of
        Some f \<Rightarrow>
          Some (st\<lparr>floatVals := set_back (floatVals st) f @ [0], elementType := FLOAT\<rparr>)
      | None \<Rightarrow>
     (case parseAsInteger L element of
        Some i \<Rightarrow>
          Some (st\<lparr>intVals := set_back (intVals st) i @ [0], elementType := INTEGER\<rparr>)
      | None \<Rightarrow> None))))"

lemma length_trimmWhiteSpaces: "length (trimmWhiteSpaces s) \<le> length s"
proof -
  have a: "length (dropWhile P xs) \<le> length xs" for P and xs :: string
    by (induction xs) auto
  have "length (trimmTrailingSpaces u) \<le> length u" for u
    using a [of _ "rev u"] by (simp add: trimmTrailingSpaces_def)
  moreover have "length (trimmLeadingSpaces s) \<le> length s"
    using a [of _ s] by (simp add: trimmLeadingSpaces_def)
  ultimately show ?thesis
    unfolding trimmWhiteSpaces_def using le_trans by blast
qed

text \<open>
  The \<^verbatim>\<open>while(true)\<close> loop over the comma-separated elements. Every \<^verbatim>\<open>break\<close>
  returns the state; the last statement of the body shortens \<^verbatim>\<open>elements\<close>, which is
  why the loop ends.
\<close>

function arrayLoop :: "'f::zero stdlib \<Rightarrow> string \<Rightarrow> 'f loop_state \<Rightarrow> 'f loop_state" where
  "arrayLoop L elements st =
     (let n = chr_find elements CHR '','';
          element = trimmWhiteSpaces
            (case n of None \<Rightarrow> elements | Some k \<Rightarrow> substr elements 0 k)
      in case parseElement L element st of
           None \<Rightarrow> st\<lparr>messages := messages st @ [UnknownType element]\<rparr>
         | Some st1 \<Rightarrow>
             if arrayType st1 \<noteq> NO_VAL \<and> arrayType st1 \<noteq> elementType st1
             then st1\<lparr>messages := messages st1 @ [SameTypeExpected]\<rparr>
             else
               let st2 = (if arrayType st1 = NO_VAL
                          then st1\<lparr>arrayType := elementType st1\<rparr> else st1)
               in case n of
                    None \<Rightarrow> st2
                  | Some k \<Rightarrow>
                      if k + 1 \<ge> length elements then st2
                      else arrayLoop L (trimmWhiteSpaces (drop (k + 1) elements)) st2)"
  by pat_completeness auto
termination
proof (relation "measure (\<lambda>(L, elements, st). length elements)", goal_cases)
  case 1
  show ?case by simp
next
  case (2 L elements st n element st1 st2 k)
  from 2 have "length (drop (k + 1) elements) < length elements"
    by simp
  then have "length (trimmWhiteSpaces (drop (k + 1) elements)) < length elements"
    using length_trimmWhiteSpaces [of "drop (k + 1) elements"] by linarith
  then show ?case by simp
qed

text \<open>
  The \<^verbatim>\<open>switch (elementType)\<close> after the loop: the vector of the type of the element
  parsed last loses its unassigned slot and is copied into the result.
\<close>

definition copyElements :: "'f loop_state \<Rightarrow> 'f config_struct \<Rightarrow> 'f config_struct" where
  "copyElements st c =
     (case elementType st of
        NO_VAL \<Rightarrow> c
      | STRING \<Rightarrow> c\<lparr>stringVal := butlast (stringVals st)\<rparr>
      | BOOLEAN \<Rightarrow> c\<lparr>boolVal := butlast (boolVals st)\<rparr>
      | FLOAT \<Rightarrow> c\<lparr>floatVal := butlast (floatVals st)\<rparr>
      | INTEGER \<Rightarrow> c\<lparr>intVal := butlast (intVals st)\<rparr>)"

text \<open>
  The block \<^verbatim>\<open>// Parse value\<close> of \<^verbatim>\<open>parseLine\<close>: from the trimmed value string to
  \<^verbatim>\<open>pvPair.second\<close> and the messages printed. An empty array returns early, with the
  type still \<^verbatim>\<open>NO_VAL\<close>.
\<close>

definition classify :: "'f::zero stdlib \<Rightarrow> string \<Rightarrow> 'f config_struct \<times> diag list" where
  "classify L valString =
     (let c = config_struct_init\<lparr>rawString := valString\<rparr> in
      if valString = [] then (c, [])
      else (case parseAsString valString of
        Some v \<Rightarrow> (c\<lparr>type := STRING, stringVal := set_back [[]] v\<rparr>, [])
      | None \<Rightarrow>
          if hd valString = CHR ''['' \<and> last valString = CHR '']'' then
            if length valString < 3 then (c, [])
            else
              let elements = substr valString 1 (length valString - 2);
                  st = arrayLoop L elements loop_init
              in (copyElements st (c\<lparr>type := arrayType st\<rparr>), messages st)
          else
         (case parseAsBoolean valString of
            Some b \<Rightarrow> (c\<lparr>type := BOOLEAN, boolVal := set_back [False] b\<rparr>, [])
          | None \<Rightarrow>
         (case parseAsFloat L valString of
            Some f \<Rightarrow> (c\<lparr>type := FLOAT, floatVal := set_back [0] f\<rparr>, [])
          | None \<Rightarrow>
         (case parseAsInteger L valString of
            Some i \<Rightarrow> (c\<lparr>type := INTEGER, intVal := set_back [0] i\<rparr>, [])
          | None \<Rightarrow> (c, []))))))"

section \<open>A line\<close>

text \<open>
  \<^verbatim>\<open>parseLine\<close> returns the pair of name and value, the indentation it wrote to
  \<^verbatim>\<open>w_padding\<close>, and (in the model) the messages it printed.
\<close>

definition parseLine ::
  "'f::zero stdlib \<Rightarrow> string \<Rightarrow> (string \<times> 'f config_struct) \<times> nat \<times> diag list" where
  "parseLine L w_line =
     (let pvPair = ([], config_struct_init) in
      if w_line = [] then (pvPair, 0, [])
      else
        let trimmed_sp = trimmLeadingSpaces w_line;
            trimmed = trimmLeadingTabs trimmed_sp;
            w_padding = length w_line - length trimmed
        in
        if trimmed = [] then (pvPair, w_padding, [])
        else if hd trimmed = CHR '' '' then (pvPair, w_padding, [MixingNotAllowed])
        else
          let warn = (if length trimmed_sp \<noteq> length trimmed \<and> length trimmed_sp \<noteq> length w_line
                      then [WarningMix] else [])
          in
          if chr_find trimmed CHR ''#'' = Some 0 then (pvPair, w_padding, warn)
          else case chr_find trimmed CHR '':'' of
            None \<Rightarrow> (pvPair, w_padding, warn @ [Invalid w_line])
          | Some n \<Rightarrow>
              if n = 0 then (pvPair, w_padding, warn @ [Invalid w_line])
              else
                let paramString = trimmWhiteSpaces (substr trimmed 0 n);
                    valString = (if n < length trimmed
                                 then trimmWhiteSpaces (drop (n + 1) trimmed) else [])
                in
                if paramString = [] then (pvPair, w_padding, warn @ [MissingParam])
                else
                  let (c, msgs) = classify L valString
                  in ((paramString, c), w_padding, warn @ msgs))"

section \<open>A file\<close>

text \<open>
  The local variables of \<^verbatim>\<open>parseFile\<close>. \<open>config\<close> is the dictionary, \<open>stderr\<close> the
  messages printed. \<open>ubReads\<close> is a ghost field: it counts the calls of
  \<^verbatim>\<open>back()\<close> on an empty vector, which are undefined behaviour in C++. A run of the
  model is a defined run of the program exactly when the counter stays 0.
\<close>

record 'f pstate =
  config :: "string \<rightharpoonup> 'f config_struct"
  fullParamName :: string
  paramLengths :: "nat list"
  paddingHistory :: "nat list"
  stderr :: "diag list"
  ubReads :: nat

definition init_state :: "'f pstate" where
  "init_state =
     \<lparr>config = Map.empty, fullParamName = [], paramLengths = [], paddingHistory = [],
      stderr = [], ubReads = 0\<rparr>"

text \<open>
  \<^verbatim>\<open>v.back()\<close>: on an empty vector the read is outside the vector's storage. The model
  takes the value from the parameter \<open>oob\<close> (indexed by the number of such reads so
  far, so that every such read may see a different value) and counts the read.
\<close>

definition vec_back :: "(nat \<Rightarrow> nat) \<Rightarrow> nat list \<Rightarrow> nat \<Rightarrow> nat \<times> nat" where
  "vec_back oob v u = (if v = [] then (oob u, Suc u) else (last v, u))"

text \<open>
  \<^verbatim>\<open>a - b\<close> on \<^verbatim>\<open>size_t\<close> (64 bits): the difference wraps around below zero.
\<close>

definition size_sub :: "nat \<Rightarrow> nat \<Rightarrow> nat" where
  "size_sub a b = nat ((int a - int b) mod 18446744073709551616)"

text \<open>\<^verbatim>\<open>config.insert({key, value})\<close>: a key that is present keeps its value.\<close>

definition map_insert :: "('k \<rightharpoonup> 'v) \<Rightarrow> 'k \<Rightarrow> 'v \<Rightarrow> ('k \<rightharpoonup> 'v)" where
  "map_insert m k v = (case m k of None \<Rightarrow> m(k \<mapsto> v) | Some _ \<Rightarrow> m)"

text \<open>
  The loop \<^verbatim>\<open>while(paddingHistory.size() > 0)\<close> under the comment \<^verbatim>\<open>// Rewind\<close>:
  pop the indentation, cut the full name by the recorded length, pop the length, and
  leave the loop when the indentation now on top is smaller than the line's.
\<close>

function rewind :: "(nat \<Rightarrow> nat) \<Rightarrow> nat \<Rightarrow> 'f pstate \<Rightarrow> 'f pstate" where
  "rewind oob currentPadding s =
     (if length (paddingHistory s) > 0 then
        let ph = butlast (paddingHistory s);
            (len, u1) = vec_back oob (paramLengths s) (ubReads s);
            name = substr (fullParamName s) 0 (size_sub (length (fullParamName s)) len);
            pl = butlast (paramLengths s);
            (top, u2) = vec_back oob ph u1;
            s' = s\<lparr>paddingHistory := ph, fullParamName := name, paramLengths := pl,
                   ubReads := u2\<rparr>
        in if currentPadding > top then s' else rewind oob currentPadding s'
      else s)"
  by pat_completeness auto
termination
  by (relation "measure (\<lambda>(oob, currentPadding, s). length (paddingHistory s))") auto

text \<open>The body of \<^verbatim>\<open>while(getline(file, line))\<close>.\<close>

definition step :: "'f::zero stdlib \<Rightarrow> (nat \<Rightarrow> nat) \<Rightarrow> string \<Rightarrow> 'f pstate \<Rightarrow> 'f pstate" where
  "step L oob line s =
     (let (pvPair, currentPadding, msgs) = parseLine L line;
          s0 = s\<lparr>stderr := stderr s @ msgs\<rparr>
      in
      if fst pvPair = [] \<or> type (snd pvPair) = NO_VAL then s0
      else
        let s1 = (if paddingHistory s0 \<noteq> [] then
                    if currentPadding \<le> last (paddingHistory s0)
                    then rewind oob currentPadding s0 else s0
                  else s0);
            s2 = s1\<lparr>paddingHistory := paddingHistory s1 @ [currentPadding],
                    paramLengths := paramLengths s1 @ [1 + length (fst pvPair)],
                    fullParamName := fullParamName s1 @
                      (if fullParamName s1 = [] then fst pvPair else ''.'' @ fst pvPair)\<rparr>
        in
        if type (snd pvPair) \<noteq> NO_VAL
        then s2\<lparr>config := map_insert (config s2) (fullParamName s2) (snd pvPair)\<rparr>
        else s2)"

fun parseLoop :: "'f::zero stdlib \<Rightarrow> (nat \<Rightarrow> nat) \<Rightarrow> string list \<Rightarrow> 'f pstate \<Rightarrow> 'f pstate" where
  "parseLoop L oob [] s = s"
| "parseLoop L oob (line # lines) s = parseLoop L oob lines (step L oob line s)"

text \<open>
  \<^verbatim>\<open>parseFile\<close>. The file is \<open>None\<close> when it cannot be opened, and otherwise the
  lines that \<^verbatim>\<open>getline\<close> delivers (a read error only ends them early and prints one
  more message at the end). \<open>parseFile_run\<close> is the state when the function returns,
  \<open>parseFile\<close> the dictionary it returns.
\<close>

definition parseFile_run ::
  "'f::zero stdlib \<Rightarrow> (nat \<Rightarrow> nat) \<Rightarrow> string list option \<Rightarrow> 'f pstate" where
  "parseFile_run L oob file =
     (case file of
        None \<Rightarrow> init_state\<lparr>stderr := [ErrorOpening]\<rparr>
      | Some lines \<Rightarrow> parseLoop L oob lines init_state)"

definition parseFile ::
  "'f::zero stdlib \<Rightarrow> (nat \<Rightarrow> nat) \<Rightarrow> string list option \<Rightarrow> (string \<rightharpoonup> 'f config_struct)" where
  "parseFile L oob file = config (parseFile_run L oob file)"

section \<open>Concrete inputs\<close>

text \<open>
  An environment and a source of out-of-range values for the concrete runs below. None
  of the concrete lines has a \<^verbatim>\<open>.\<close> in a value, so neither conversion is ever
  called on them; the general theorems hold for every environment.
\<close>

definition lib0 :: "real stdlib" where
  "lib0 = \<lparr>stof = (\<lambda>s. None), stoi = (\<lambda>s. None)\<rparr>"

definition oob0 :: "nat \<Rightarrow> nat" where
  "oob0 k = 0"

text \<open>Every slot vector of the array loop holds at least its unassigned slot.\<close>

definition slots_ok :: "'f loop_state \<Rightarrow> bool" where
  "slots_ok st \<longleftrightarrow>
     stringVals st \<noteq> [] \<and> boolVals st \<noteq> [] \<and> floatVals st \<noteq> [] \<and> intVals st \<noteq> []"

declare str_find.simps [simp del] arrayLoop.simps [simp del] rewind.simps [simp del]

lemmas eval_defs =
  parseFile_def parseFile_run_def step_def parseLine_def classify_def init_state_def
  trimmLeadingSpaces_def trimmLeadingTabs_def trimmTrailingSpaces_def trimmWhiteSpaces_def
  chr_find_def substr_def parseAsString_def parseAsBoolean_def parseAsFloat_def
  parseAsInteger_def config_struct_init_def map_insert_def size_sub_def vec_back_def
  set_back_def Let_def str_find.simps rewind.simps arrayLoop.simps parseElement_def
  loop_init_def copyElements_def

section \<open>The model reads no vector out of range, except where the program does\<close>

text \<open>
  \<open>set_back\<close> and the final \<^verbatim>\<open>pop_back\<close> of the array loop always act on a vector
  that is not empty.
\<close>

lemma parseElement_slots:
  "parseElement L e st = Some st1 \<Longrightarrow> slots_ok st \<Longrightarrow> slots_ok st1"
  by (auto simp: parseElement_def slots_ok_def split: option.splits)

lemma slots_ok_update [simp]:
  "slots_ok (st\<lparr>messages := m\<rparr>) = slots_ok st"
  "slots_ok (st\<lparr>arrayType := a\<rparr>) = slots_ok st"
  by (simp_all add: slots_ok_def)

lemma arrayLoop_slots: "slots_ok st \<Longrightarrow> slots_ok (arrayLoop L elements st)"
proof (induction L elements st rule: arrayLoop.induct)
  case (1 L elements st)
  let ?n = "chr_find elements CHR '',''"
  let ?element = "trimmWhiteSpaces
      (case ?n of None \<Rightarrow> elements | Some k \<Rightarrow> substr elements 0 k)"
  show ?case
  proof (cases "parseElement L ?element st")
    case None
    then show ?thesis
      using "1.prems" by (subst arrayLoop.simps) (simp add: Let_def)
  next
    case parsed: (Some st1)
    let ?st2 = "if arrayType st1 = NO_VAL then st1\<lparr>arrayType := elementType st1\<rparr> else st1"
    have ok1: "slots_ok st1"
      using parsed "1.prems" by (rule parseElement_slots)
    then have ok2: "slots_ok ?st2"
      by simp
    show ?thesis
    proof (cases "arrayType st1 \<noteq> NO_VAL \<and> arrayType st1 \<noteq> elementType st1")
      case True
      then show ?thesis
        using parsed ok1 by (subst arrayLoop.simps) (simp add: Let_def)
    next
      case same: False
      show ?thesis
      proof (cases ?n)
        case None
        then show ?thesis
          using parsed ok1 same by (subst arrayLoop.simps) (auto simp add: Let_def)
      next
        case comma: (Some k)
        show ?thesis
        proof (cases "k + 1 \<ge> length elements")
          case True
          then show ?thesis
            using parsed ok1 same comma by (subst arrayLoop.simps) (auto simp add: Let_def)
        next
          case more: False
          have "slots_ok (arrayLoop L (trimmWhiteSpaces (drop (k + 1) elements)) ?st2)"
            using parsed same comma more ok2
            by (intro "1.IH") simp_all
          then show ?thesis
            using parsed same comma more by (subst arrayLoop.simps) (auto simp add: Let_def)
        qed
      qed
    qed
  qed
qed

lemma loop_init_slots: "slots_ok loop_init"
  by (simp add: slots_ok_def loop_init_def)

text \<open>Facts about the rewind loop.\<close>

lemma rewind_empty: "paddingHistory s = [] \<Longrightarrow> rewind oob cur s = s"
  by (subst rewind.simps) simp

lemma rewind_config: "config (rewind oob cur s) = config s"
proof (induction oob cur s rule: rewind.induct)
  case (1 oob cur s)
  show ?case
    by (subst rewind.simps) (use 1 in \<open>auto simp: Let_def split: prod.splits\<close>)
qed

lemma rewind_stderr: "stderr (rewind oob cur s) = stderr s"
proof (induction oob cur s rule: rewind.induct)
  case (1 oob cur s)
  show ?case
    by (subst rewind.simps) (use 1 in \<open>auto simp: Let_def split: prod.splits\<close>)
qed

text \<open>
  \<^verbatim>\<open>paramLengths\<close> and \<^verbatim>\<open>paddingHistory\<close> always have the same size, so
  \<^verbatim>\<open>paramLengths.back()\<close> in the rewind loop is never a read of an empty vector: the
  reads that \<open>ubReads\<close> counts are all reads of \<^verbatim>\<open>paddingHistory.back()\<close>.
\<close>

lemma rewind_lengths:
  "length (paramLengths s) = length (paddingHistory s) \<Longrightarrow>
   length (paramLengths (rewind oob cur s)) = length (paddingHistory (rewind oob cur s))"
proof (induction oob cur s rule: rewind.induct)
  case (1 oob cur s)
  show ?case
    by (subst (1 2) rewind.simps) (use 1 in \<open>auto simp: Let_def split: prod.splits\<close>)
qed

lemma step_lengths:
  "length (paramLengths s) = length (paddingHistory s) \<Longrightarrow>
   length (paramLengths (step L oob line s)) = length (paddingHistory (step L oob line s))"
  by (auto simp: step_def Let_def rewind_lengths split: prod.splits)

lemma parseLoop_lengths:
  "length (paramLengths s) = length (paddingHistory s) \<Longrightarrow>
   length (paramLengths (parseLoop L oob lines s)) =
   length (paddingHistory (parseLoop L oob lines s))"
  by (induction lines arbitrary: s) (auto simp: step_lengths)

lemma parseFile_run_lengths:
  "length (paramLengths (parseFile_run L oob file)) =
   length (paddingHistory (parseFile_run L oob file))"
  by (cases "file") (simp_all add: parseFile_run_def parseLoop_lengths init_state_def)

section \<open>Substrings\<close>

lemma take_is_prefix: "take (length pat) s = pat \<longleftrightarrow> (\<exists>q. s = pat @ q)"
proof
  assume "take (length pat) s = pat"
  then have "s = pat @ drop (length pat) s"
    by (metis append_take_drop_id)
  then show "\<exists>q. s = pat @ q" ..
next
  assume "\<exists>q. s = pat @ q"
  then show "take (length pat) s = pat" by auto
qed

text \<open>\<open>str_find\<close> finds a pattern exactly when it occurs somewhere in the string.\<close>

lemma str_find_iff: "str_find s pat \<noteq> None \<longleftrightarrow> (\<exists>p q. s = p @ pat @ q)"
proof (induction s)
  case Nil
  show ?case by (subst str_find.simps) auto
next
  case (Cons x r)
  have split: "(\<exists>p q. x # r = p @ pat @ q) \<longleftrightarrow>
      (\<exists>q. x # r = pat @ q) \<or> (\<exists>p q. r = p @ pat @ q)"
  proof
    assume "\<exists>p q. x # r = p @ pat @ q"
    then obtain p q where pq: "x # r = p @ pat @ q" by blast
    show "(\<exists>q. x # r = pat @ q) \<or> (\<exists>p q. r = p @ pat @ q)"
    proof (cases p)
      case Nil
      with pq show ?thesis by auto
    next
      case (Cons y p')
      with pq have "r = p' @ pat @ q" by simp
      then show ?thesis by blast
    qed
  next
    assume "(\<exists>q. x # r = pat @ q) \<or> (\<exists>p q. r = p @ pat @ q)"
    then show "\<exists>p q. x # r = p @ pat @ q"
    proof
      assume "\<exists>q. x # r = pat @ q"
      then obtain q where "x # r = [] @ pat @ q" by auto
      then show ?thesis by blast
    next
      assume "\<exists>p q. r = p @ pat @ q"
      then obtain p q where "x # r = (x # p) @ pat @ q" by auto
      then show ?thesis by blast
    qed
  qed
  show ?case
  proof (cases "take (length pat) (x # r) = pat")
    case True
    then have "str_find (x # r) pat = Some 0"
      by (subst str_find.simps) simp
    moreover from True have "\<exists>q. x # r = pat @ q"
      using take_is_prefix [of pat "x # r"] by blast
    ultimately show ?thesis using split by simp
  next
    case False
    then have "str_find (x # r) pat = map_option Suc (str_find r pat)"
      by (subst str_find.simps) simp
    moreover from False have "\<not> (\<exists>q. x # r = pat @ q)"
      using take_is_prefix [of pat "x # r"] by blast
    ultimately show ?thesis using split Cons.IH by simp
  qed
qed

lemma str_find_char: "str_find w [c] \<noteq> None \<longleftrightarrow> c \<in> set w"
proof -
  have "(\<exists>p q. w = p @ [c] @ q) \<longleftrightarrow> c \<in> set w"
    by (auto simp: in_set_conv_decomp)
  then show ?thesis
    by (simp only: str_find_iff)
qed

lemma str_find_needs_first:
  assumes "c \<notin> set w"
  shows "str_find w (c # pat) = None"
proof -
  have "\<not> (\<exists>p q. w = p @ (c # pat) @ q)"
    using assms by auto
  then show ?thesis
    using str_find_iff [of w "c # pat"] by blast
qed

text \<open>\<^verbatim>\<open>parseAsString\<close> in closed form.\<close>

lemma parseAsString_iff:
  "parseAsString w =
     (if 2 < length w \<and> hd w = CHR 0x22 \<and> last w = CHR 0x22
      then Some (butlast (tl w)) else None)"
proof (cases w)
  case Nil
  then show ?thesis by (simp add: parseAsString_def)
next
  case (Cons c r)
  have "take (length r - Suc 0) r = butlast r"
    by (simp add: butlast_conv_take)
  with Cons show ?thesis
    by (simp add: parseAsString_def substr_def)
qed

section \<open>Numbers (claim C1)\<close>

text \<open>
  A token made of digits and points is not a string, an array or a boolean: its value
  is decided by \<^verbatim>\<open>parseAsFloat\<close> and then \<^verbatim>\<open>parseAsInteger\<close>.
\<close>

lemma number_token_scalar:
  assumes "w \<noteq> []" and "set w \<subseteq> set ''0123456789.''"
  shows "classify L w =
     (case parseAsFloat L w of
        Some f \<Rightarrow> (\<lparr>type = FLOAT, rawString = w, stringVal = [], boolVal = [],
                     floatVal = [f], intVal = []\<rparr>, [])
      | None \<Rightarrow>
     (case parseAsInteger L w of
        Some i \<Rightarrow> (\<lparr>type = INTEGER, rawString = w, stringVal = [], boolVal = [],
                     floatVal = [], intVal = [i]\<rparr>, [])
      | None \<Rightarrow> (\<lparr>type = NO_VAL, rawString = w, stringVal = [], boolVal = [],
                     floatVal = [], intVal = []\<rparr>, [])))"
proof -
  have other: "CHR 0x22 \<notin> set ''0123456789.''" "CHR ''['' \<notin> set ''0123456789.''"
    "CHR ''T'' \<notin> set ''0123456789.''" "CHR ''F'' \<notin> set ''0123456789.''"
    by simp_all
  from assms have "hd w \<in> set ''0123456789.''"
    using hd_in_set by blast
  with other(1,2) have "hd w \<noteq> CHR 0x22" and "hd w \<noteq> CHR ''[''"
    by metis+
  then have nostr: "parseAsString w = None"
    and nobr: "(hd w = CHR ''['' \<and> last w = CHR '']'') = False"
    by (simp_all add: parseAsString_iff)
  from other(3,4) assms(2) have noT: "CHR ''T'' \<notin> set w" and noF: "CHR ''F'' \<notin> set w"
    by (meson subsetD)+
  have "str_find w ''TRUE'' = None"
    using noT by (rule str_find_needs_first)
  moreover have "str_find w ''FALSE'' = None"
    using noF by (rule str_find_needs_first)
  ultimately have nobool: "parseAsBoolean w = None"
    by (simp add: parseAsBoolean_def)
  show ?thesis
    unfolding classify_def Let_def
    by (simp add: config_struct_init_def set_back_def assms(1) nostr nobr nobool
        split: option.splits)
qed

text \<open>A digit sequence with a point is a float, if \<^verbatim>\<open>std::stof\<close> accepts it.\<close>

lemma digits_with_point_float:
  assumes "w \<noteq> []" and "set w \<subseteq> set ''0123456789.''" and "CHR ''.'' \<in> set w"
    and "stof L w = Some f"
  shows "classify L w =
     (\<lparr>type = FLOAT, rawString = w, stringVal = [], boolVal = [], floatVal = [f],
       intVal = []\<rparr>, [])"
proof -
  have "str_find w ''.'' \<noteq> None"
    using assms(3) str_find_char [of w "CHR ''.''"] by simp
  then have "parseAsFloat L w = Some f"
    using assms(4) by (simp add: parseAsFloat_def)
  then show ?thesis
    using number_token_scalar [OF assms(1,2), of L] by simp
qed

text \<open>No digit sequence without a point has a value, whatever \<^verbatim>\<open>std::stoi\<close> does.\<close>

lemma digits_without_point_no_value:
  assumes "w \<noteq> []" and "set w \<subseteq> set ''0123456789''"
  shows "classify L w =
     (\<lparr>type = NO_VAL, rawString = w, stringVal = [], boolVal = [], floatVal = [],
       intVal = []\<rparr>, [])"
proof -
  have "CHR ''.'' \<notin> set ''0123456789''"
    by simp
  with assms(2) have "CHR ''.'' \<notin> set w"
    by blast
  then have "str_find w ''.'' = None"
    using str_find_char [of w "CHR ''.''"] by simp
  then have "parseAsFloat L w = None" and "parseAsInteger L w = None"
    by (simp_all add: parseAsFloat_def parseAsInteger_def)
  moreover have "set ''0123456789'' \<subseteq> set ''0123456789.''"
    by (simp add: subset_insertI2)
  then have "set w \<subseteq> set ''0123456789.''"
    using assms(2) by blast
  ultimately show ?thesis
    using number_token_scalar [OF assms(1), of L] by simp
qed

text \<open>
  Claim C1: a token that is a digit sequence with a \<^verbatim>\<open>.\<close> is classified as a float, and
  a digit sequence without a \<^verbatim>\<open>.\<close> as an integer holding the parsed value.

  The second half fails on the code. \<^verbatim>\<open>parseAsInteger\<close> calls \<^verbatim>\<open>std::stoi\<close> only when
  the token contains a \<^verbatim>\<open>.\<close>, the same test as in \<^verbatim>\<open>parseAsFloat\<close>, although the
  comment on \<^verbatim>\<open>config_struct\<close> says that a value is cast to a float if it contains a
  decimal point ``and as an integer otherwise''. Whatever \<^verbatim>\<open>std::stoi\<close> does, the token
  \<^verbatim>\<open>42\<close> is not parsed by \<^verbatim>\<open>parseAsInteger\<close>, its value has type \<^verbatim>\<open>NO_VAL\<close>, and
  the file with the one line \<^verbatim>\<open>x: 42\<close> yields the empty dictionary.
\<close>

theorem integer_without_point_not_parsed:
  "parseAsInteger L ''42'' = None \<and>
   classify L ''42'' =
     (\<lparr>type = NO_VAL, rawString = ''42'', stringVal = [], boolVal = [], floatVal = [],
       intVal = []\<rparr>, []) \<and>
   parseFile L oob (Some [''x: 42'']) = Map.empty"
  by (simp add: eval_defs)

section \<open>Lines without a value (claim C2)\<close>

text \<open>
  Claim C2: an accepted line whose value is \<^verbatim>\<open>NO_VAL\<close> creates no entry but still pushes
  its frame, so that deeper lines get its name as an ancestor; the document
  \<^verbatim>\<open>a:\<close>, \<^verbatim>\<open>  b: 1\<close>, \<^verbatim>\<open>  c: 2\<close> yields \<^verbatim>\<open>a.b\<close> and \<^verbatim>\<open>a.c\<close>.

  On the code the line is dropped by the \<^verbatim>\<open>continue\<close> at the head of the loop body,
  before anything is pushed. The claim's document yields the empty dictionary (its
  values \<^verbatim>\<open>1\<close> and \<^verbatim>\<open>2\<close> are not parsed either, see C1), \<^verbatim>\<open>a:\<close> leaves the stack
  empty, and with a value that is parsed the entry of \<^verbatim>\<open>  b: TRUE\<close> under \<^verbatim>\<open>a:\<close> is
  named \<^verbatim>\<open>b\<close>, not \<^verbatim>\<open>a.b\<close>. The last two conjuncts are the example of the header's own
  comment on \<^verbatim>\<open>configList\<close>, which names the last entry
  \<^verbatim>\<open>glossary.GlossDiv.title\<close>: the code names it \<^verbatim>\<open>title.title\<close>.
\<close>

theorem line_without_value_pushes_no_frame:
  "parseFile L oob (Some [''a:'', ''  b: 1'', ''  c: 2'']) = Map.empty \<and>
   paddingHistory (parseFile_run L oob (Some [''a:''])) = [] \<and>
   fullParamName (parseFile_run L oob (Some [''a:''])) = [] \<and>
   parseFile L oob (Some [''a:'', ''  b: TRUE'']) ''a.b'' = None \<and>
   map_option boolVal (parseFile L oob (Some [''a:'', ''  b: TRUE'']) ''b'') = Some [True] \<and>
   parseFile L oob (Some [''glossary:'',
       ''   title:  '' @ [CHR 0x22] @ ''example glossary'' @ [CHR 0x22],
       ''   GlossDiv: '',
       ''       title: '' @ [CHR 0x22] @ ''S1'' @ [CHR 0x22]]) ''glossary.GlossDiv.title'' = None \<and>
   map_option stringVal (parseFile L oob (Some [''glossary:'',
       ''   title:  '' @ [CHR 0x22] @ ''example glossary'' @ [CHR 0x22],
       ''   GlossDiv: '',
       ''       title: '' @ [CHR 0x22] @ ''S1'' @ [CHR 0x22]]) ''title.title'') = Some [''S1'']"
  by (simp add: eval_defs)

section \<open>Rewinding (claims C3 and C4)\<close>

text \<open>
  Claim C3: a line indented no deeper than the top of the stack pops frames, each pop
  cutting the frame's recorded length from the end of the full name, until the stack is
  empty or its top is less indented than the line; the document \<^verbatim>\<open>a:\<close>, \<^verbatim>\<open>  b:\<close>,
  \<^verbatim>\<open>    c: 1\<close>, \<^verbatim>\<open>d: 2\<close> yields exactly \<^verbatim>\<open>a.b.c\<close> and \<^verbatim>\<open>d\<close>.

  On the code that document yields the empty dictionary: \<^verbatim>\<open>a:\<close> and \<^verbatim>\<open>  b:\<close> are
  dropped (see C2) and \<^verbatim>\<open>1\<close> and \<^verbatim>\<open>2\<close> are not parsed (see C1). With values that are
  parsed, the pop of the bottom frame cuts nothing: its recorded length counts a dot
  that the full name does not have, the subtraction wraps around, and \<^verbatim>\<open>substr\<close> keeps
  the whole name. So \<^verbatim>\<open>d\<close> after \<^verbatim>\<open>a\<close> and \<^verbatim>\<open>a.b\<close> is entered as \<^verbatim>\<open>a.d\<close>, whatever
  the one read of the emptied stack returns.
\<close>

theorem rewind_scenario_on_code:
  "parseFile L oob (Some [''a:'', ''  b:'', ''    c: 1'', ''d: 2'']) = Map.empty \<and>
   dom (parseFile L oob (Some [''a: TRUE'', ''  b: TRUE'', ''d: TRUE''])) =
     {''a'', ''a.b'', ''a.d''} \<and>
   ubReads (parseFile_run L oob (Some [''a: TRUE'', ''  b: TRUE'', ''d: TRUE''])) = 1"
proof -
  have "parseFile L oob (Some [''a:'', ''  b:'', ''    c: 1'', ''d: 2'']) = Map.empty"
    by (simp add: eval_defs)
  moreover have "dom (parseFile L oob (Some [''a: TRUE'', ''  b: TRUE'', ''d: TRUE''])) =
     {''a'', ''a.b'', ''a.d''}"
    by (auto simp add: eval_defs dom_def split: if_splits)
  moreover have
    "ubReads (parseFile_run L oob (Some [''a: TRUE'', ''  b: TRUE'', ''d: TRUE''])) = 1"
    by (simp add: eval_defs)
  ultimately show ?thesis by simp
qed

text \<open>
  Claim C4: in the rewind loop every read of the top of \<^verbatim>\<open>paddingHistory\<close> happens
  while it is not empty, and the subtraction of the recorded length from the length of
  the full name never underflows.

  Both fail on the code for the two lines \<^verbatim>\<open>a: TRUE\<close>, \<^verbatim>\<open>b: TRUE\<close>. After the first
  line the recorded length is 2 and the full name \<^verbatim>\<open>a\<close> has length 1. The second line
  pops that frame: \<open>1 - 2\<close> wraps around to \<open>2^64 - 1\<close>, and after the pop the loop
  compares with \<^verbatim>\<open>paddingHistory.back()\<close> of the now empty vector (one counted read).
  The second entry is named \<^verbatim>\<open>a.b\<close>.
\<close>

theorem rewind_reads_empty_stack:
  "ubReads (parseFile_run L oob (Some [''a: TRUE''])) = 0 \<and>
   paddingHistory (parseFile_run L oob (Some [''a: TRUE''])) = [0] \<and>
   paramLengths (parseFile_run L oob (Some [''a: TRUE''])) = [2] \<and>
   fullParamName (parseFile_run L oob (Some [''a: TRUE''])) = ''a'' \<and>
   size_sub (length ''a'') 2 = 18446744073709551615 \<and>
   ubReads (parseFile_run L oob (Some [''a: TRUE'', ''b: TRUE''])) = 1 \<and>
   fullParamName (parseFile_run L oob (Some [''a: TRUE'', ''b: TRUE''])) = ''a.b''"
  by (simp add: eval_defs)

section \<open>Duplicate names (claim C5)\<close>

lemma map_insert_keeps: "m k = Some v \<Longrightarrow> map_insert m k' v' k = Some v"
  by (cases "m k'") (auto simp: map_insert_def)

lemma step_keeps: "config s k = Some v \<Longrightarrow> config (step L oob line s) k = Some v"
  by (auto simp: step_def Let_def rewind_config map_insert_keeps split: prod.splits)

lemma parseLoop_keeps:
  "config s k = Some v \<Longrightarrow> config (parseLoop L oob lines s) k = Some v"
  by (induction lines arbitrary: s) (auto simp: step_keeps)

lemma parseLoop_append:
  "parseLoop L oob (xs @ ys) s = parseLoop L oob ys (parseLoop L oob xs s)"
  by (induction xs arbitrary: s) auto

lemma parseFile_run_snoc:
  "parseFile_run L oob (Some (pre @ [line])) = step L oob line (parseFile_run L oob (Some pre))"
  by (simp add: parseFile_run_def parseLoop_append)

text \<open>
  An accepted line with a value leaves, under the name it resolved to, the value that
  was there before, and its own value if there was none.
\<close>

lemma step_config_at_name:
  assumes "fst (fst (parseLine L line)) \<noteq> []"
    and "type (snd (fst (parseLine L line))) \<noteq> NO_VAL"
  shows "config (step L oob line s) (fullParamName (step L oob line s)) =
           Some (case config s (fullParamName (step L oob line s)) of
                   None \<Rightarrow> snd (fst (parseLine L line))
                 | Some old \<Rightarrow> old)"
  using assms
  by (auto simp: step_def Let_def rewind_config map_insert_def split: prod.splits option.splits)

text \<open>
  Claim C5: when two accepted lines resolve to the same dotted name with values, the
  dictionary ends with the value of the later line (last write wins).

  This fails on the code: \<^verbatim>\<open>config.insert\<close> does not replace an entry that exists.
  In the document below the second and the third line both resolve to \<^verbatim>\<open>a.b\<close>, the
  third with the value \<^verbatim>\<open>FALSE\<close>, no vector is read out of range, and the dictionary
  ends with \<^verbatim>\<open>TRUE\<close>, the value of the second line.
\<close>

theorem last_write_wins_counterexample:
  "fullParamName (parseFile_run lib0 oob0 (Some [''a: TRUE'', '' b: TRUE''])) = ''a.b'' \<and>
   fullParamName (parseFile_run lib0 oob0 (Some [''a: TRUE'', '' b: TRUE'', '' b: FALSE''])) =
     ''a.b'' \<and>
   ubReads (parseFile_run lib0 oob0 (Some [''a: TRUE'', '' b: TRUE'', '' b: FALSE''])) = 0 \<and>
   type (snd (fst (parseLine lib0 '' b: FALSE''))) = BOOLEAN \<and>
   boolVal (snd (fst (parseLine lib0 '' b: FALSE''))) = [False] \<and>
   map_option boolVal
     (parseFile lib0 oob0 (Some [''a: TRUE'', '' b: TRUE'', '' b: FALSE'']) ''a.b'') =
     Some [True]"
  by (simp add: eval_defs lib0_def oob0_def)

text \<open>
  Claim C5 as the code has it: the first write wins. Take any accepted line with a
  value, after any lines \<open>pre\<close> and before any lines \<open>post\<close>. At the end of the
  document the dotted name the line resolved to has the value it already had before the
  line, if it had one, and the value of the line otherwise: no later line changes it.
\<close>

theorem first_write_wins:
  assumes "fst (fst (parseLine L line)) \<noteq> []"
    and "type (snd (fst (parseLine L line))) \<noteq> NO_VAL"
  shows "parseFile L oob (Some (pre @ line # post))
           (fullParamName (parseFile_run L oob (Some (pre @ [line])))) =
         Some (case parseFile L oob (Some pre)
                      (fullParamName (parseFile_run L oob (Some (pre @ [line])))) of
                 None \<Rightarrow> snd (fst (parseLine L line))
               | Some old \<Rightarrow> old)"
proof -
  let ?s = "parseFile_run L oob (Some pre)"
  let ?s' = "step L oob line ?s"
  have "config ?s' (fullParamName ?s') =
      Some (case config ?s (fullParamName ?s') of
              None \<Rightarrow> snd (fst (parseLine L line)) | Some old \<Rightarrow> old)"
    using assms by (rule step_config_at_name)
  then have "config (parseLoop L oob post ?s') (fullParamName ?s') =
      Some (case config ?s (fullParamName ?s') of
              None \<Rightarrow> snd (fst (parseLine L line)) | Some old \<Rightarrow> old)"
    by (rule parseLoop_keeps)
  moreover have "parseFile_run L oob (Some (pre @ line # post)) = parseLoop L oob post ?s'"
    by (simp add: parseFile_run_def parseLoop_append)
  ultimately show ?thesis
    by (simp add: parseFile_def parseFile_run_snoc)
qed

text \<open>
  In \<^verbatim>\<open>a: TRUE\<close>, \<^verbatim>\<open> b: TRUE\<close>, \<^verbatim>\<open> b: FALSE\<close>, \<^verbatim>\<open> b: TRUE\<close> the second line
  creates \<^verbatim>\<open>a.b\<close> (there was no such name before it), and the third line, which
  resolves to \<^verbatim>\<open>a.b\<close> too, leaves the value of the second.
\<close>

theorem first_write_wins_witness:
  "parseFile lib0 oob0 (Some ([''a: TRUE''] @ '' b: TRUE'' # ['' b: FALSE'', '' b: TRUE'']))
     ''a.b'' =
     Some \<lparr>type = BOOLEAN, rawString = ''TRUE'', stringVal = [], boolVal = [True],
            floatVal = [], intVal = []\<rparr> \<and>
   parseFile lib0 oob0 (Some ([''a: TRUE'', '' b: TRUE''] @ '' b: FALSE'' # ['' b: TRUE'']))
     ''a.b'' =
     Some \<lparr>type = BOOLEAN, rawString = ''TRUE'', stringVal = [], boolVal = [True],
            floatVal = [], intVal = []\<rparr>"
proof -
  have l2: "fst (fst (parseLine lib0 '' b: TRUE'')) \<noteq> []"
    "type (snd (fst (parseLine lib0 '' b: TRUE''))) \<noteq> NO_VAL"
    by (simp_all add: eval_defs)
  have l3: "fst (fst (parseLine lib0 '' b: FALSE'')) \<noteq> []"
    "type (snd (fst (parseLine lib0 '' b: FALSE''))) \<noteq> NO_VAL"
    by (simp_all add: eval_defs)
  have n2: "fullParamName (parseFile_run lib0 oob0 (Some ([''a: TRUE''] @ ['' b: TRUE'']))) =
      ''a.b''"
    by (simp add: eval_defs)
  have n3: "fullParamName
      (parseFile_run lib0 oob0 (Some ([''a: TRUE'', '' b: TRUE''] @ ['' b: FALSE'']))) = ''a.b''"
    by (simp add: eval_defs)
  have before2: "parseFile lib0 oob0 (Some [''a: TRUE'']) ''a.b'' = None"
    by (simp add: eval_defs)
  have before3: "parseFile lib0 oob0 (Some [''a: TRUE'', '' b: TRUE'']) ''a.b'' =
      Some \<lparr>type = BOOLEAN, rawString = ''TRUE'', stringVal = [], boolVal = [True],
             floatVal = [], intVal = []\<rparr>"
    by (simp add: eval_defs)
  have v2: "snd (fst (parseLine lib0 '' b: TRUE'')) =
      \<lparr>type = BOOLEAN, rawString = ''TRUE'', stringVal = [], boolVal = [True],
        floatVal = [], intVal = []\<rparr>"
    by (simp add: eval_defs)
  from first_write_wins [OF l2, of oob0 "[''a: TRUE'']" "['' b: FALSE'', '' b: TRUE'']"]
  have a: "parseFile lib0 oob0
      (Some ([''a: TRUE''] @ '' b: TRUE'' # ['' b: FALSE'', '' b: TRUE''])) ''a.b'' =
     Some \<lparr>type = BOOLEAN, rawString = ''TRUE'', stringVal = [], boolVal = [True],
            floatVal = [], intVal = []\<rparr>"
    by (simp only: n2 before2 v2 option.case)
  from first_write_wins [OF l3, of oob0 "[''a: TRUE'', '' b: TRUE'']" "['' b: TRUE'']"]
  have b: "parseFile lib0 oob0
      (Some ([''a: TRUE'', '' b: TRUE''] @ '' b: FALSE'' # ['' b: TRUE''])) ''a.b'' =
     Some \<lparr>type = BOOLEAN, rawString = ''TRUE'', stringVal = [], boolVal = [True],
            floatVal = [], intVal = []\<rparr>"
    by (simp only: n3 before3 option.case)
  from a b show ?thesis by (rule conjI)
qed

section \<open>Arrays of mixed type (claim C6)\<close>

text \<open>
  Claim C6: for an array whose elements are not all of one type, the loop stops at the
  first element of another type, prints a message, and returns a value of the first
  element's type whose elements are those stored before the mismatch.

  The code stops, prints the message and keeps the first element's type, but the elements
  are lost: the \<^verbatim>\<open>switch\<close> after the loop copies the vector of \<^verbatim>\<open>elementType\<close>, the
  type of the element parsed last, which is the mismatching one. For
  \<^verbatim>\<open>[TRUE, "ab"]\<close> the value has type \<^verbatim>\<open>BOOLEAN\<close> with an empty \<^verbatim>\<open>boolVal\<close>, and
  the mismatching string is in \<^verbatim>\<open>stringVal\<close>. The example \<^verbatim>\<open>[1, 2.0]\<close> stops at
  its first element, which is not parsed (see C1), with type \<^verbatim>\<open>NO_VAL\<close>.
\<close>

theorem mixed_array_loses_elements:
  "classify L (''[TRUE, '' @ [CHR 0x22] @ ''ab'' @ [CHR 0x22] @ '']'') =
     (\<lparr>type = BOOLEAN, rawString = ''[TRUE, '' @ [CHR 0x22] @ ''ab'' @ [CHR 0x22] @ '']'',
       stringVal = [''ab''], boolVal = [], floatVal = [], intVal = []\<rparr>,
      [SameTypeExpected]) \<and>
   classify L ''[1, 2.0]'' =
     (\<lparr>type = NO_VAL, rawString = ''[1, 2.0]'', stringVal = [], boolVal = [],
       floatVal = [], intVal = []\<rparr>,
      [UnknownType ''1''])"
  by (simp add: eval_defs)

section \<open>Mixed indentation (claim C7)\<close>

lemma trimm_spaces_then_tabs:
  assumes "0 < b"
  shows "trimmLeadingSpaces (replicate a CHR '' '' @ replicate b (CHR 0x09) @ ys) =
           replicate b (CHR 0x09) @ ys"
proof -
  from assms obtain b' where b: "b = Suc b'"
    by (cases b) auto
  have "dropWhile (\<lambda>c. c = CHR '' '') (replicate a CHR '' '' @ replicate b (CHR 0x09) @ ys) =
        dropWhile (\<lambda>c. c = CHR '' '') (replicate b (CHR 0x09) @ ys)"
    by (rule dropWhile_append2) simp
  also have "\<dots> = replicate b (CHR 0x09) @ ys"
    by (simp add: b)
  finally show ?thesis
    by (simp add: trimmLeadingSpaces_def b)
qed

lemma trimm_tabs_then_space:
  "trimmLeadingTabs (replicate b (CHR 0x09) @ CHR '' '' # rest) = CHR '' '' # rest"
proof -
  have "dropWhile (\<lambda>c. c = CHR 0x09) (replicate b (CHR 0x09) @ CHR '' '' # rest) =
        dropWhile (\<lambda>c. c = CHR 0x09) (CHR '' '' # rest)"
    by (rule dropWhile_append2) simp
  then show ?thesis
    by (simp add: trimmLeadingTabs_def)
qed

lemma trimm_spaces_keeps:
  "c \<noteq> CHR '' '' \<Longrightarrow> trimmLeadingSpaces (c # rest) = c # rest"
  by (simp add: trimmLeadingSpaces_def)

lemma trimm_tabs_keeps:
  "c \<noteq> CHR 0x09 \<Longrightarrow> trimmLeadingTabs (c # rest) = c # rest"
  by (simp add: trimmLeadingTabs_def)

lemma trimm_spaces_all:
  assumes "c \<noteq> CHR '' ''"
  shows "trimmLeadingSpaces (replicate a CHR '' '' @ c # rest) = c # rest"
proof -
  have "dropWhile (\<lambda>c. c = CHR '' '') (replicate a CHR '' '' @ c # rest) =
        dropWhile (\<lambda>c. c = CHR '' '') (c # rest)"
    by (rule dropWhile_append2) simp
  with assms show ?thesis
    by (simp add: trimmLeadingSpaces_def)
qed

lemma trimm_tabs_all:
  assumes "c \<noteq> CHR 0x09"
  shows "trimmLeadingTabs (replicate b (CHR 0x09) @ c # rest) = c # rest"
proof -
  have "dropWhile (\<lambda>c. c = CHR 0x09) (replicate b (CHR 0x09) @ c # rest) =
        dropWhile (\<lambda>c. c = CHR 0x09) (c # rest)"
    by (rule dropWhile_append2) simp
  with assms show ?thesis
    by (simp add: trimmLeadingTabs_def)
qed

text \<open>
  Spaces, then tabs, then a character that is neither: the line is parsed as the line
  without its indentation is, the indentation counts both runs, and when both runs are
  there the first message is the warning.
\<close>

lemma parseLine_indented:
  assumes "c \<noteq> CHR '' ''" and "c \<noteq> CHR 0x09"
  shows "fst (parseLine L (replicate a CHR '' '' @ replicate b (CHR 0x09) @ c # rest)) =
           fst (parseLine L (c # rest))"
    and "fst (snd (parseLine L (replicate a CHR '' '' @ replicate b (CHR 0x09) @ c # rest))) =
           a + b"
    and "0 < a \<Longrightarrow> 0 < b \<Longrightarrow>
         take 1 (snd (snd (parseLine L
           (replicate a CHR '' '' @ replicate b (CHR 0x09) @ c # rest)))) = [WarningMix]"
proof -
  let ?line = "replicate a CHR '' '' @ replicate b (CHR 0x09) @ c # rest"
  have sp: "trimmLeadingSpaces ?line = replicate b (CHR 0x09) @ c # rest"
  proof (cases "b = 0")
    case True
    with assms(1) show ?thesis by (simp add: trimm_spaces_all)
  next
    case False
    then show ?thesis by (simp add: trimm_spaces_then_tabs)
  qed
  have tb: "trimmLeadingTabs (replicate b (CHR 0x09) @ c # rest) = c # rest"
    using assms(2) by (rule trimm_tabs_all)
  show "fst (parseLine L ?line) = fst (parseLine L (c # rest))"
    using assms
    by (simp add: parseLine_def Let_def sp tb trimm_spaces_keeps trimm_tabs_keeps
        split: option.splits prod.splits)
  show "fst (snd (parseLine L ?line)) = a + b"
    using assms
    by (simp add: parseLine_def Let_def sp tb trimm_tabs_keeps
        split: option.splits prod.splits)
  show "take 1 (snd (snd (parseLine L ?line))) = [WarningMix]" if "0 < a" "0 < b"
    using assms that
    by (simp add: parseLine_def Let_def sp tb trimm_tabs_keeps
        split: option.splits prod.splits)
qed

text \<open>
  Claim C7: every line whose leading run mixes tabs and spaces, in either order (such as
  a space, a tab and \<^verbatim>\<open>foo: 1\<close>), is rejected with a message, gives no entry and
  leaves the path stack as it was.

  This fails for spaces followed by tabs: the line made of a space, a tab and
  \<^verbatim>\<open>foo: TRUE\<close> only gets the warning, is parsed with indentation 2, and the file
  made of it has the entry \<^verbatim>\<open>foo\<close>.
\<close>

theorem mixed_indentation_counterexample:
  "parseLine lib0 ([CHR 0x20, CHR 0x09] @ ''foo: TRUE'') =
     ((''foo'', \<lparr>type = BOOLEAN, rawString = ''TRUE'', stringVal = [], boolVal = [True],
                floatVal = [], intVal = []\<rparr>), 2, [WarningMix]) \<and>
   map_option boolVal
     (parseFile lib0 oob0 (Some [[CHR 0x20, CHR 0x09] @ ''foo: TRUE'']) ''foo'') = Some [True]"
  by (simp add: eval_defs)

text \<open>
  Claim C7 as the code has it. (1) A line is rejected when, in its leading run, a space
  follows a tab, that is when the line is \<open>a\<close> spaces, then \<open>b > 0\<close> tabs, then a
  space, then anything: \<^verbatim>\<open>parseLine\<close> prints the message and returns the empty name
  with a \<^verbatim>\<open>NO_VAL\<close> value (and the indentation \<open>a + b\<close>), and the loop of
  \<^verbatim>\<open>parseFile\<close> changes nothing but the output: dictionary, full name and both stacks
  stay as they were. (2) A line of \<open>a\<close> spaces, then \<open>b\<close> tabs, then a character \<open>c\<close>
  that is neither is not rejected for its indentation: its name and value are those of
  the line without the indentation, its indentation is \<open>a + b\<close>, and when both runs
  are there the first message printed is the warning.
\<close>

theorem mixed_indentation_on_code:
  "(0 < b \<longrightarrow>
      parseLine L (replicate a CHR '' '' @ replicate b (CHR 0x09) @ CHR '' '' # rest) =
        (([], config_struct_init), a + b, [MixingNotAllowed]) \<and>
      step L oob (replicate a CHR '' '' @ replicate b (CHR 0x09) @ CHR '' '' # rest) s =
        s\<lparr>stderr := stderr s @ [MixingNotAllowed]\<rparr>) \<and>
   (c \<noteq> CHR '' '' \<and> c \<noteq> CHR 0x09 \<longrightarrow>
      fst (parseLine L (replicate a CHR '' '' @ replicate b (CHR 0x09) @ c # rest)) =
        fst (parseLine L (c # rest)) \<and>
      fst (snd (parseLine L (replicate a CHR '' '' @ replicate b (CHR 0x09) @ c # rest))) =
        a + b \<and>
      (0 < a \<and> 0 < b \<longrightarrow>
        take 1 (snd (snd (parseLine L
          (replicate a CHR '' '' @ replicate b (CHR 0x09) @ c # rest)))) = [WarningMix]))"
proof (intro conjI impI)
  let ?line = "replicate a CHR '' '' @ replicate b (CHR 0x09) @ CHR '' '' # rest"
  assume b: "0 < b"
  show pl: "parseLine L ?line = (([], config_struct_init), a + b, [MixingNotAllowed])"
    by (simp add: parseLine_def Let_def trimm_spaces_then_tabs [OF b] trimm_tabs_then_space)
  then show "step L oob ?line s = s\<lparr>stderr := stderr s @ [MixingNotAllowed]\<rparr>"
    by (simp add: step_def)
next
  let ?line = "replicate a CHR '' '' @ replicate b (CHR 0x09) @ c # rest"
  assume c: "c \<noteq> CHR '' '' \<and> c \<noteq> CHR 0x09"
  then show "fst (parseLine L ?line) = fst (parseLine L (c # rest))"
    by (simp add: parseLine_indented(1))
  from c show "fst (snd (parseLine L ?line)) = a + b"
    by (simp add: parseLine_indented(2))
  assume "0 < a \<and> 0 < b"
  with c show "take 1 (snd (snd (parseLine L ?line))) = [WarningMix]"
    using parseLine_indented(3) [of c a b L rest] by simp
qed

text \<open>
  A space, a tab, a space and \<^verbatim>\<open>foo: TRUE\<close> is rejected after the line
  \<^verbatim>\<open>a: TRUE\<close> and leaves the state of the parse as it was; a space, a tab and
  \<^verbatim>\<open>foo: TRUE\<close> is parsed as \<^verbatim>\<open>foo: TRUE\<close> is, with indentation 2 and the warning.
\<close>

theorem mixed_indentation_on_code_witness:
  "parseLine lib0 ([CHR 0x20, CHR 0x09, CHR 0x20] @ ''foo: TRUE'') =
     (([], config_struct_init), 2, [MixingNotAllowed]) \<and>
   step lib0 oob0 ([CHR 0x20, CHR 0x09, CHR 0x20] @ ''foo: TRUE'')
       (parseFile_run lib0 oob0 (Some [''a: TRUE''])) =
     (parseFile_run lib0 oob0 (Some [''a: TRUE'']))
       \<lparr>stderr := stderr (parseFile_run lib0 oob0 (Some [''a: TRUE''])) @ [MixingNotAllowed]\<rparr> \<and>
   fst (parseLine lib0 ([CHR 0x20, CHR 0x09] @ ''foo: TRUE'')) =
     fst (parseLine lib0 ''foo: TRUE'') \<and>
   fst (snd (parseLine lib0 ([CHR 0x20, CHR 0x09] @ ''foo: TRUE''))) = 2 \<and>
   take 1 (snd (snd (parseLine lib0 ([CHR 0x20, CHR 0x09] @ ''foo: TRUE'')))) = [WarningMix]"
  using mixed_indentation_on_code [where a = 1 and b = 1 and L = lib0 and oob = oob0
      and rest = "''foo: TRUE''" and c = "CHR '' ''"
      and s = "parseFile_run lib0 oob0 (Some [''a: TRUE''])"]
    mixed_indentation_on_code [where a = 1 and b = 1 and L = lib0 and oob = oob0
      and rest = "''oo: TRUE''" and c = "CHR ''f''"
      and s = "parseFile_run lib0 oob0 (Some [''a: TRUE''])"]
  by simp

section \<open>Strings (claim C8)\<close>

text \<open>
  Claim C8: a token longer than 2 whose first and last characters are double quotes is
  classified as the string between these two quotes, unchanged (no escape processing);
  a token that is not of this shape is not accepted by \<^verbatim>\<open>parseAsString\<close>, and its
  value is not of type \<^verbatim>\<open>STRING\<close> unless it is an array in square brackets.
\<close>

theorem classify_string:
  "(2 < length w \<and> hd w = CHR 0x22 \<and> last w = CHR 0x22 \<longrightarrow>
      classify L w =
        (\<lparr>type = STRING, rawString = w, stringVal = [butlast (tl w)], boolVal = [],
          floatVal = [], intVal = []\<rparr>, [])) \<and>
   (\<not> (2 < length w \<and> hd w = CHR 0x22 \<and> last w = CHR 0x22) \<longrightarrow>
      parseAsString w = None \<and>
      (\<not> (hd w = CHR ''['' \<and> last w = CHR '']'') \<longrightarrow> type (fst (classify L w)) \<noteq> STRING))"
proof (intro conjI impI)
  assume shape: "2 < length w \<and> hd w = CHR 0x22 \<and> last w = CHR 0x22"
  then have "w \<noteq> []" by auto
  with shape show "classify L w =
        (\<lparr>type = STRING, rawString = w, stringVal = [butlast (tl w)], boolVal = [],
          floatVal = [], intVal = []\<rparr>, [])"
    by (simp add: classify_def parseAsString_iff config_struct_init_def set_back_def)
next
  assume "\<not> (2 < length w \<and> hd w = CHR 0x22 \<and> last w = CHR 0x22)"
  then show "parseAsString w = None"
    by (simp add: parseAsString_iff)
next
  assume noshape: "\<not> (2 < length w \<and> hd w = CHR 0x22 \<and> last w = CHR 0x22)"
    and nobr: "\<not> (hd w = CHR ''['' \<and> last w = CHR '']'')"
  from noshape have "parseAsString w = None"
    by (simp add: parseAsString_iff)
  then show "type (fst (classify L w)) \<noteq> STRING"
    by (simp add: classify_def Let_def config_struct_init_def nobr split: option.splits)
qed

text \<open>
  The token is a quote, \<^verbatim>\<open>a\<close>, a backslash, \<^verbatim>\<open>n\<close> and a quote: the backslash stays.
  A token with an opening quote only is not a string.
\<close>

theorem classify_string_witness:
  "classify lib0 ([CHR 0x22, CHR ''a'', CHR 0x5C, CHR ''n'', CHR 0x22]) =
     (\<lparr>type = STRING, rawString = [CHR 0x22, CHR ''a'', CHR 0x5C, CHR ''n'', CHR 0x22],
       stringVal = [[CHR ''a'', CHR 0x5C, CHR ''n'']],
       boolVal = [], floatVal = [], intVal = []\<rparr>, []) \<and>
   parseAsString (CHR 0x22 # ''ab'') = None \<and>
   type (fst (classify lib0 (CHR 0x22 # ''ab''))) \<noteq> STRING"
  using classify_string [of "[CHR 0x22, CHR ''a'', CHR 0x5C, CHR ''n'', CHR 0x22]" lib0]
    classify_string [of "CHR 0x22 # ''ab''" lib0]
  by simp

section \<open>Booleans (claim C9)\<close>

text \<open>
  Claim C9: a token that is not empty, not a quoted string (see C8) and not enclosed in
  square brackets is classified as the boolean true when \<^verbatim>\<open>TRUE\<close> occurs anywhere in
  it, and otherwise as the boolean false when \<^verbatim>\<open>FALSE\<close> occurs anywhere in it.
\<close>

theorem classify_boolean:
  assumes "w \<noteq> []"
    and "\<not> (2 < length w \<and> hd w = CHR 0x22 \<and> last w = CHR 0x22)"
    and "\<not> (hd w = CHR ''['' \<and> last w = CHR '']'')"
  shows "((\<exists>p q. w = p @ ''TRUE'' @ q) \<longrightarrow>
           classify L w =
             (\<lparr>type = BOOLEAN, rawString = w, stringVal = [], boolVal = [True],
               floatVal = [], intVal = []\<rparr>, [])) \<and>
         (\<not> (\<exists>p q. w = p @ ''TRUE'' @ q) \<and> (\<exists>p q. w = p @ ''FALSE'' @ q) \<longrightarrow>
           classify L w =
             (\<lparr>type = BOOLEAN, rawString = w, stringVal = [], boolVal = [False],
               floatVal = [], intVal = []\<rparr>, []))"
proof -
  have nostr: "parseAsString w = None"
    using assms(2) by (simp add: parseAsString_iff)
  have "classify L w =
      (\<lparr>type = BOOLEAN, rawString = w, stringVal = [], boolVal = [b],
         floatVal = [], intVal = []\<rparr>, [])" if "parseAsBoolean w = Some b" for b
    by (simp add: classify_def config_struct_init_def set_back_def Let_def
        assms(1) assms(3) nostr that)
  moreover have "(\<exists>p q. w = p @ ''TRUE'' @ q) \<Longrightarrow> parseAsBoolean w = Some True"
    unfolding parseAsBoolean_def using str_find_iff [of w "''TRUE''"] by simp
  moreover have "\<not> (\<exists>p q. w = p @ ''TRUE'' @ q) \<Longrightarrow> (\<exists>p q. w = p @ ''FALSE'' @ q)
      \<Longrightarrow> parseAsBoolean w = Some False"
    unfolding parseAsBoolean_def
    using str_find_iff [of w "''TRUE''"] str_find_iff [of w "''FALSE''"] by simp
  ultimately show ?thesis by blast
qed

theorem classify_boolean_witness:
  "classify lib0 ''NOTTRUE'' =
     (\<lparr>type = BOOLEAN, rawString = ''NOTTRUE'', stringVal = [], boolVal = [True],
       floatVal = [], intVal = []\<rparr>, []) \<and>
   classify lib0 ''xFALSEx'' =
     (\<lparr>type = BOOLEAN, rawString = ''xFALSEx'', stringVal = [], boolVal = [False],
       floatVal = [], intVal = []\<rparr>, [])"
proof -
  have "''NOTTRUE'' = ''NOT'' @ ''TRUE'' @ []"
    by simp
  then have t: "\<exists>p q. ''NOTTRUE'' = p @ ''TRUE'' @ q"
    by blast
  have "''xFALSEx'' = ''x'' @ ''FALSE'' @ ''x''"
    by simp
  then have f: "\<exists>p q. ''xFALSEx'' = p @ ''FALSE'' @ q"
    by blast
  have "str_find ''xFALSEx'' ''TRUE'' = None"
    by (simp add: str_find.simps)
  then have nt: "\<not> (\<exists>p q. ''xFALSEx'' = p @ ''TRUE'' @ q)"
    using str_find_iff [of "''xFALSEx''" "''TRUE''"] by simp
  have a: "classify lib0 ''NOTTRUE'' =
     (\<lparr>type = BOOLEAN, rawString = ''NOTTRUE'', stringVal = [], boolVal = [True],
       floatVal = [], intVal = []\<rparr>, [])"
    using classify_boolean [of "''NOTTRUE''" lib0] t by simp
  have b: "classify lib0 ''xFALSEx'' =
     (\<lparr>type = BOOLEAN, rawString = ''xFALSEx'', stringVal = [], boolVal = [False],
       floatVal = [], intVal = []\<rparr>, [])"
    using classify_boolean [of "''xFALSEx''" lib0] f nt by simp
  from a b show ?thesis by simp
qed

section \<open>Determinism (claim C10)\<close>

text \<open>
  Under the invariant on the two stacks, the rewind loop does not depend on what the
  read of the emptied stack returns: that read is the last thing the loop does, and
  both outcomes of the comparison leave the loop with the same state.
\<close>

lemma rewind_oob:
  "length (paramLengths s) = length (paddingHistory s) \<Longrightarrow>
   rewind oob cur s = rewind oob' cur s"
proof (induction oob cur s rule: rewind.induct)
  case (1 oob cur s)
  show ?case
  proof (cases "paddingHistory s = []")
    case True
    then show ?thesis by (simp add: rewind_empty)
  next
    case False
    with 1(2) have pl: "paramLengths s \<noteq> []" by auto
    define s' where "s' = s\<lparr>paddingHistory := butlast (paddingHistory s),
        fullParamName := substr (fullParamName s) 0
          (size_sub (length (fullParamName s)) (last (paramLengths s))),
        paramLengths := butlast (paramLengths s)\<rparr>"
    have len': "length (paramLengths s') = length (paddingHistory s')"
      using 1(2) by (simp add: s'_def)
    show ?thesis
    proof (cases "butlast (paddingHistory s) = []")
      case True
      have "rewind f cur s = s'\<lparr>ubReads := Suc (ubReads s)\<rparr>" for f
        using False pl True
        by (subst rewind.simps) (simp add: Let_def vec_back_def s'_def rewind_empty)
      then show ?thesis by simp
    next
      case nonempty: False
      have unfold: "rewind f cur s =
          (if cur > last (butlast (paddingHistory s)) then s' else rewind f cur s')" for f
        using False pl nonempty
        by (subst rewind.simps) (simp add: Let_def vec_back_def s'_def)
      show ?thesis
      proof (cases "cur > last (butlast (paddingHistory s))")
        case True
        then show ?thesis by (simp add: unfold)
      next
        case notop: False
        have "rewind oob cur s' = rewind oob' cur s'"
          using 1(1) [of "butlast (paddingHistory s)" "(last (paramLengths s), ubReads s)"
              "last (paramLengths s)" "ubReads s" _ "butlast (paramLengths s)"
              "(last (butlast (paddingHistory s)), ubReads s)"
              "last (butlast (paddingHistory s))" "ubReads s" s']
            False pl nonempty notop len'
          by (simp add: vec_back_def s'_def)
        then show ?thesis by (simp add: unfold notop)
      qed
    qed
  qed
qed

lemma step_oob:
  assumes "length (paramLengths s) = length (paddingHistory s)"
  shows "step L oob line s = step L oob' line s"
proof -
  have "rewind oob cur (s\<lparr>stderr := e\<rparr>) = rewind oob' cur (s\<lparr>stderr := e\<rparr>)" for cur e
    using assms by (intro rewind_oob) simp
  then show ?thesis
    by (simp add: step_def Let_def split: prod.splits)
qed

lemma parseLoop_oob:
  "length (paramLengths s) = length (paddingHistory s) \<Longrightarrow>
   parseLoop L oob lines s = parseLoop L oob' lines s"
proof (induction lines arbitrary: s)
  case Nil
  show ?case by simp
next
  case (Cons line lines)
  have "parseLoop L oob (line # lines) s = parseLoop L oob lines (step L oob line s)"
    by simp
  also have "\<dots> = parseLoop L oob' lines (step L oob line s)"
    using Cons.prems by (intro Cons.IH step_lengths)
  also have "\<dots> = parseLoop L oob' lines (step L oob' line s)"
    by (simp only: step_oob [OF Cons.prems, of L oob line oob'])
  finally show ?case by simp
qed

text \<open>
  Claim C10: parsing the same sequence of lines twice yields the same dictionary. The
  parse keeps no state between two calls; the one thing that can differ between two
  runs on the same lines is what a read outside a vector returns, and the dictionary
  does not depend on it.
\<close>

theorem parseFile_deterministic: "parseFile L oob file = parseFile L oob' file"
proof (cases "file")
  case None
  then show ?thesis by (simp add: parseFile_def parseFile_run_def)
next
  case (Some lines)
  have "parseLoop L oob lines init_state = parseLoop L oob' lines init_state"
    by (rule parseLoop_oob) (simp add: init_state_def)
  with Some show ?thesis by (simp add: parseFile_def parseFile_run_def)
qed

end
